theory Spec2Isabelle
  imports Complex_Main "HOL-Library.Multiset"
begin

section \<open>Numbers and errors of the Python sources\<close>

text \<open>
  The scripts compute with Python floats. The embedding idealises a float as a real number:
  every operation is exact. The properties below are about which integer conversion and
  which comparisons the code applies, and every concrete input used below is far from a
  rounding boundary, so the idealisation does not decide any of them.
\<close>

datatype py_error = ValueError | ZeroDivisionError

text \<open>\<^verbatim>\<open>int(x)\<close> on a float truncates toward zero.\<close>

definition py_int :: "real \<Rightarrow> int" where
  "py_int x = (if 0 \<le> x then \<lfloor>x\<rfloor> else \<lceil>x\<rceil>)"

text \<open>\<^verbatim>\<open>round(x)\<close> rounds to the nearest integer, a tie to the even neighbour.\<close>

definition py_round :: "real \<Rightarrow> int" where
  "py_round x =
     (let f = \<lfloor>x\<rfloor>; r = x - of_int f
      in if r < 1 / 2 then f else if 1 / 2 < r then f + 1 else if even f then f else f + 1)"

text \<open>\<^verbatim>\<open>round(x, n)\<close> keeps \<open>n\<close> decimal places.\<close>

definition py_round_nd :: "real \<Rightarrow> nat \<Rightarrow> real" where
  "py_round_nd x n = of_int (py_round (x * 10 ^ n)) / 10 ^ n"

text \<open>\<^verbatim>\<open>range(start, stop, step)\<close>: a zero step raises ValueError.\<close>

definition py_range :: "int \<Rightarrow> int \<Rightarrow> int \<Rightarrow> py_error + int list" where
  "py_range start stop step =
     (if step = 0 then Inl ValueError
      else if 0 < step
        then Inr (map (\<lambda>k. start + int k * step) [0..<nat ((stop - start + step - 1) div step)])
        else Inr (map (\<lambda>k. start + int k * step) [0..<nat ((start - stop - step - 1) div (- step))]))"

section \<open>Busyness Scorer (pi-detector.py, calculate_busyness)\<close>




section \<open>Tiling Engine (beach-detector.py and pi-detector.py, slice_image)\<close>

text \<open>
  Only the shape of an image matters to the tiling: \<open>rows\<close> and \<open>cols\<close> are
  \<^verbatim>\<open>image.shape[:2]\<close>. A tile is the window \<^verbatim>\<open>image[y_start:y_end, x_start:x_end]\<close>
  together with its offset \<open>(x_start, y_start)\<close>; the record keeps the four bounds.
\<close>

record image =
  rows :: int
  cols :: int

record tile =
  x_start :: int
  y_start :: int
  x_end :: int
  y_end :: int

definition make_tile :: "int \<Rightarrow> int \<Rightarrow> int \<Rightarrow> int \<Rightarrow> int \<Rightarrow> tile" where
  "make_tile h w slice_size y x =
     (let xe = min (x + slice_size) w;
          ye = min (y + slice_size) h;
          xs = max 0 (xe - slice_size);
          ys = max 0 (ye - slice_size)
      in \<lparr>x_start = xs, y_start = ys, x_end = xe, y_end = ye\<rparr>)"

text \<open>
  Both \<^verbatim>\<open>range\<close> calls take the same stride, so both raise or neither does; the tiles are
  appended row by row.
\<close>

definition slice_image :: "image \<Rightarrow> int \<Rightarrow> real \<Rightarrow> py_error + tile list" where
  "slice_image img slice_size overlap =
     (let h = rows img; w = cols img;
          stride = py_int (of_int slice_size * (1 - overlap))
      in case py_range 0 h stride of
           Inl e \<Rightarrow> Inl e
         | Inr ys \<Rightarrow>
             (case py_range 0 w stride of
                Inl e \<Rightarrow> Inl e
              | Inr xs \<Rightarrow> Inr (concat (map (\<lambda>y. map (\<lambda>x. make_tile h w slice_size y x) xs) ys))))"


section \<open>Detection Merger (beach-detector.py merge_detections, pi-detector.py nms_merge)\<close>

record box =
  bx1 :: real
  by1 :: real
  bx2 :: real
  by2 :: real

text \<open>
  A detection is the dictionary with keys \<^verbatim>\<open>bbox\<close>, \<^verbatim>\<open>confidence\<close> and, in beach-detector.py,
  \<^verbatim>\<open>class\<close>.
\<close>

record detection =
  bbox :: box
  confidence :: real
  class_label :: "string option"

text \<open>
  The overlap ratio of one row, as the loop body computes it. numpy divides a float by zero
  to \<open>inf\<close> or \<open>nan\<close> (no exception), and neither is \<open>\<le>\<close> a threshold: that case is \<open>None\<close>.
\<close>

definition iou :: "box \<Rightarrow> box \<Rightarrow> real option" where
  "iou a b =
     (let xx1 = max (bx1 a) (bx1 b);
          yy1 = max (by1 a) (by1 b);
          xx2 = min (bx2 a) (bx2 b);
          yy2 = min (by2 a) (by2 b);
          w = max 0 (xx2 - xx1);
          h = max 0 (yy2 - yy1);
          inter = w * h;
          area_i = (bx2 a - bx1 a) * (by2 a - by1 a);
          area_rest = (bx2 b - bx1 b) * (by2 b - by1 b);
          denom = area_i + area_rest - inter + 1 / 10 ^ 6
      in if denom = 0 then None else Some (inter / denom))"

text \<open>The test \<^verbatim>\<open>iou <= iou_threshold\<close> of \<^verbatim>\<open>np.where\<close>.\<close>

definition iou_le :: "box \<Rightarrow> box \<Rightarrow> real \<Rightarrow> bool" where
  "iou_le a b iou_threshold = (case iou a b of None \<Rightarrow> False | Some v \<Rightarrow> v \<le> iou_threshold)"

text \<open>
  \<^verbatim>\<open>scores.argsort()\<close>: the indices that sort the scores ascending. numpy's default sort
  promises no order among equal scores; on the short arrays of this pipeline its scalar
  implementation is an insertion sort, which leaves equal scores in input order. The
  embedding takes that stable order (\<open>sort_key\<close> is a stable insertion sort).
\<close>

definition argsort :: "real list \<Rightarrow> nat list" where
  "argsort scores = map snd (sort_key fst (zip scores [0..<length scores]))"

text \<open>
  The \<^verbatim>\<open>while len(order) > 0\<close> loop: \<open>order\<close> and \<open>indices\<close> are its state. The head of
  \<open>order\<close> is kept; with one element left the loop breaks; otherwise the rest is filtered.
\<close>

function nms_loop :: "box list \<Rightarrow> real \<Rightarrow> nat list \<Rightarrow> nat list \<Rightarrow> nat list" where
  "nms_loop boxes iou_threshold [] indices = indices"
| "nms_loop boxes iou_threshold [i] indices = indices @ [i]"
| "nms_loop boxes iou_threshold (i # j # rest) indices =
     nms_loop boxes iou_threshold
       (filter (\<lambda>k. iou_le (boxes ! i) (boxes ! k) iou_threshold) (j # rest))
       (indices @ [i])"
  by pat_completeness auto
termination
  by (relation "measure (\<lambda>(boxes, thr, ord, indices). length ord)")
     (auto simp add: less_Suc_eq_le intro!: le_SucI)

definition merge_detections :: "detection list \<Rightarrow> real \<Rightarrow> detection list" where
  "merge_detections all_detections iou_threshold =
     (if all_detections = [] then []
      else
        let boxes = map bbox all_detections;
            scores = map confidence all_detections;
            order = rev (argsort scores);
            indices = nms_loop boxes iou_threshold order []
        in map (\<lambda>i. all_detections ! i) indices)"

text \<open>pi-detector.py repeats the function under the name \<^verbatim>\<open>nms_merge\<close>.\<close>

definition nms_merge :: "detection list \<Rightarrow> real \<Rightarrow> detection list" where
  "nms_merge detections iou_threshold =
     (if detections = [] then []
      else
        let boxes = map bbox detections;
            scores = map confidence detections;
            order = rev (argsort scores);
            indices = nms_loop boxes iou_threshold order []
        in map (\<lambda>i. detections ! i) indices)"

text \<open>
  The part of pi-detector.py's \<^verbatim>\<open>detect\<close> after the detector has run: \<open>sliced\<close> are the
  tile detections translated by their offsets (merged once when slicing applies), \<open>full\<close>
  the full-image detections; the final merge uses the default threshold 0.4 and no sort
  follows it.
\<close>

definition detect_merge :: "bool \<Rightarrow> detection list \<Rightarrow> detection list \<Rightarrow> detection list" where
  "detect_merge slicing sliced full =
     (let all_detections = (if slicing then nms_merge sliced 0.4 else [])
      in nms_merge (all_detections @ full) 0.4)"

text \<open>The list \<^verbatim>\<open>indices\<close> when the loop of the merger has ended.\<close>

definition kept_indices :: "detection list \<Rightarrow> real \<Rightarrow> nat list" where
  "kept_indices ds iou_threshold =
     nms_loop (map bbox ds) iou_threshold (rev (argsort (map confidence ds))) []"

text \<open>Ordered by non-increasing confidence: no detection is followed by a more confident one.\<close>

definition non_increasing :: "detection list \<Rightarrow> bool" where
  "non_increasing ds \<longleftrightarrow> sorted_wrt (\<lambda>a b. confidence b \<le> confidence a) ds"

text \<open>Two boxes overlap above the threshold: their ratio is a number greater than it.\<close>

definition overlaps :: "real \<Rightarrow> box \<Rightarrow> box \<Rightarrow> bool" where
  "overlaps iou_threshold a b = (case iou a b of None \<Rightarrow> False | Some v \<Rightarrow> iou_threshold < v)"

text \<open>The DetectionSet invariant of the specification: no pair overlaps above the threshold.\<close>

definition no_overlap :: "real \<Rightarrow> detection list \<Rightarrow> bool" where
  "no_overlap iou_threshold ds \<longleftrightarrow>
     (\<forall>p < length ds. \<forall>q < length ds. p \<noteq> q \<longrightarrow> iou_le (bbox (ds ! p)) (bbox (ds ! q)) iou_threshold)"

section \<open>Pixel-density fallback (pixel-density-analyzer.py, analyze_pixel_density)\<close>

text \<open>
  A result dictionary: \<^verbatim>\<open>{"success": False, "error": msg, ...}\<close> is \<open>Failed msg\<close>, and
  \<^verbatim>\<open>{"success": True, ...}\<close> is \<open>Succeeded\<close> with the remaining entries.
\<close>

datatype 'a outcome = Failed string | Succeeded 'a





section \<open>Detector command line (yolo-detector.py, detect_persons and main)\<close>

text \<open>One element of \<^verbatim>\<open>result.boxes\<close>: \<^verbatim>\<open>box.cls[0]\<close>, \<^verbatim>\<open>box.conf[0]\<close>, \<^verbatim>\<open>box.xyxy[0]\<close>.\<close>

record yolo_box =
  cls :: real
  conf :: real
  xyxy :: box

record detection_report =
  total_persons :: nat
  min_confidence :: real
  max_confidence :: real
  avg_confidence :: real
  high :: nat
  medium :: nat
  low :: nat
  persons :: "detection list"
  annotated_image_path :: "string option"

text \<open>
  \<open>path_exists\<close> is \<^verbatim>\<open>os.path.exists\<close>; \<open>yolo\<close> loads the model and runs it on the file,
  \<open>save_image\<close> writes the annotated image and returns its path; either may raise, which
  is \<open>Inl\<close> of the exception text and is caught by the \<^verbatim>\<open>except\<close> clause.
\<close>

definition detect_persons ::
  "(string \<Rightarrow> bool) \<Rightarrow> (string \<Rightarrow> string \<Rightarrow> string + yolo_box list) \<Rightarrow> (string \<Rightarrow> string + string)
     \<Rightarrow> string \<Rightarrow> string \<Rightarrow> real \<Rightarrow> bool \<Rightarrow> detection_report outcome" where
  "detect_persons path_exists yolo save_image image_path model_name confidence_threshold
      save_annotated =
     (if \<not> path_exists image_path then Failed (''Image not found: '' @ image_path)
      else case yolo model_name image_path of
        Inl e \<Rightarrow> Failed e
      | Inr boxes \<Rightarrow>
          let person_class_id = 0;
              person_detections =
                map (\<lambda>b. \<lparr>bbox = xyxy b, confidence = py_round_nd (conf b) 3,
                          class_label = Some ''person''\<rparr>)
                  (filter (\<lambda>b. py_int (cls b) = person_class_id \<and> confidence_threshold \<le> conf b)
                     boxes);
              total_detections = length person_detections;
              confidences = map confidence person_detections;
              report =
                (if 0 < total_detections then
                   \<lparr>total_persons = total_detections,
                    min_confidence = py_round_nd (Min (set confidences)) 3,
                    max_confidence = py_round_nd (Max (set confidences)) 3,
                    avg_confidence =
                      py_round_nd (sum_list confidences / real (length confidences)) 3,
                    high = length (filter (\<lambda>d. 0.7 \<le> confidence d) person_detections),
                    medium =
                      length (filter (\<lambda>d. 0.5 \<le> confidence d \<and> confidence d < 0.7)
                        person_detections),
                    low = length (filter (\<lambda>d. confidence d < 0.5) person_detections),
                    persons = person_detections,
                    annotated_image_path = None\<rparr>
                 else
                   \<lparr>total_persons = total_detections, min_confidence = 0, max_confidence = 0,
                    avg_confidence = 0, high = 0, medium = 0, low = 0,
                    persons = person_detections, annotated_image_path = None\<rparr>)
          in if save_annotated \<and> 0 < total_detections then
               (case save_image image_path of
                  Inl e \<Rightarrow> Failed e
                | Inr p \<Rightarrow> Succeeded (report\<lparr>annotated_image_path := Some p\<rparr>))
             else Succeeded report)"

text \<open>The parsed command line: \<^verbatim>\<open>args.image_path\<close>, \<^verbatim>\<open>args.model\<close> and so on.\<close>

record cli_args =
  arg_image_path :: string
  arg_model :: string
  arg_confidence :: real
  arg_save_annotated :: bool
  arg_json :: bool

text \<open>
  What \<^verbatim>\<open>main\<close> prints: the JSON dump of the result, the human-readable report, or the
  error line. The exit code is 1 where \<^verbatim>\<open>sys.exit(1)\<close> is called and 0 where \<^verbatim>\<open>main\<close>
  returns.
\<close>

datatype printed =
  Json_dump "detection_report outcome"
| Report detection_report
| Error_line string

definition main ::
  "(string \<Rightarrow> bool) \<Rightarrow> (string \<Rightarrow> string \<Rightarrow> string + yolo_box list) \<Rightarrow> (string \<Rightarrow> string + string)
     \<Rightarrow> cli_args \<Rightarrow> printed \<times> int" where
  "main path_exists yolo save_image args =
     (let result =
            detect_persons path_exists yolo save_image (arg_image_path args) (arg_model args)
              (arg_confidence args) (arg_save_annotated args)
      in if arg_json args then (Json_dump result, 0)
         else (case result of
                 Succeeded report \<Rightarrow> (Report report, 0)
               | Failed e \<Rightarrow> (Error_line e, 1)))"

section \<open>Properties of the Busyness Scorer\<close>





section \<open>Properties of the Tiling Engine\<close>








lemma slice_image_zero:
  assumes "py_int (of_int slice_size * (1 - overlap)) = 0"
  shows "slice_image img slice_size overlap = Inl ValueError"
  using assms by (simp add: slice_image_def Let_def py_range_def)







section \<open>Properties of the Detection Merger\<close>

lemma iou_commute: "iou a b = iou b a"
  by (simp add: iou_def Let_def max.commute min.commute add.commute)

lemma iou_le_commute: "iou_le a b t = iou_le b a t"
  by (simp add: iou_le_def iou_commute)

lemma argsort_mset: "mset (argsort ss) = mset [0..<length ss]"
proof -
  have "mset (argsort ss) = mset (map snd (zip ss [0..<length ss]))"
    by (simp only: argsort_def mset_map mset_sort)
  moreover have "map snd (zip ss [0..<length ss]) = [0..<length ss]"
    by simp
  ultimately show ?thesis
    by (simp only:)
qed

lemma argsort_set: "set (argsort ss) = {0..<length ss}"
  using argsort_mset [of ss] by (metis mset_eq_setD set_upt)

lemma argsort_distinct: "distinct (argsort ss)"
  using argsort_mset [of ss] by (metis distinct_upt mset_eq_imp_distinct_iff)

lemma argsort_length: "length (argsort ss) = length ss"
  using argsort_mset [of ss] by (metis length_upt mset_eq_length minus_nat.diff_0)

lemma zip_upt_fst: "z \<in> set (zip ss [0..<length ss]) \<Longrightarrow> fst z = ss ! snd z"
  by (auto simp add: set_zip)

lemma argsort_keys:
  "map (\<lambda>i. ss ! i) (argsort ss) = map fst (sort_key fst (zip ss [0..<length ss]))"
  by (simp add: argsort_def zip_upt_fst)

lemma argsort_sorted: "sorted (map (\<lambda>i. ss ! i) (argsort ss))"
  by (simp only: argsort_keys sorted_sort_key)

lemma order_desc:
  "sorted_wrt (\<lambda>i k. ss ! k \<le> ss ! i) (rev (argsort ss))"
proof -
  have "sorted_wrt (\<lambda>i k. ss ! i \<le> ss ! k) (argsort ss)"
    using argsort_sorted [of ss] by (simp add: sorted_wrt_map)
  then show ?thesis
    by (simp add: sorted_wrt_rev)
qed

lemma nms_loop_sorted_wrt:
  "sorted_wrt R (indices @ ord) \<Longrightarrow> sorted_wrt R (nms_loop boxes t ord indices)"
proof (induction boxes t ord indices rule: nms_loop.induct)
  case (3 boxes t i j rest indices)
  define fl where "fl = filter (\<lambda>k. iou_le (boxes ! i) (boxes ! k) t) (j # rest)"
  have "sorted_wrt R fl" "set fl \<subseteq> set (j # rest)"
    using "3.prems" unfolding fl_def by (auto simp add: sorted_wrt_append sorted_wrt_filter)
  then have "sorted_wrt R ((indices @ [i]) @ fl)"
    using "3.prems" by (auto simp add: sorted_wrt_append)
  then have "sorted_wrt R (nms_loop boxes t fl (indices @ [i]))"
    unfolding fl_def by (rule "3.IH")
  then show ?case
    by (simp add: fl_def)
qed simp_all

lemma nms_loop_mset:
  "mset (nms_loop boxes t ord indices) \<subseteq># mset indices + mset ord"
proof (induction boxes t ord indices rule: nms_loop.induct)
  case (3 boxes t i j rest indices)
  define fl where "fl = filter (\<lambda>k. iou_le (boxes ! i) (boxes ! k) t) (j # rest)"
  have "mset fl \<subseteq># mset (j # rest)"
    unfolding fl_def by (simp only: mset_filter multiset_filter_subset)
  then have "mset (indices @ [i]) + mset fl \<subseteq># mset indices + mset (i # j # rest)"
    by simp
  moreover have "mset (nms_loop boxes t fl (indices @ [i])) \<subseteq># mset (indices @ [i]) + mset fl"
    unfolding fl_def by (rule "3.IH")
  ultimately have "mset (nms_loop boxes t fl (indices @ [i])) \<subseteq># mset indices + mset (i # j # rest)"
    by (rule subset_mset.order_trans [rotated])
  then show ?case
    by (simp add: fl_def)
qed simp_all

lemma nms_loop_invariant:
  assumes "sorted_wrt (\<lambda>i k. iou_le (boxes ! i) (boxes ! k) t) indices"
      and "\<forall>a \<in> set indices. \<forall>k \<in> set ord. iou_le (boxes ! a) (boxes ! k) t"
  shows "sorted_wrt (\<lambda>i k. iou_le (boxes ! i) (boxes ! k) t) (nms_loop boxes t ord indices)"
  using assms
proof (induction boxes t ord indices rule: nms_loop.induct)
  case (3 boxes t i j rest indices)
  have "sorted_wrt (\<lambda>i k. iou_le (boxes ! i) (boxes ! k) t)
      (nms_loop boxes t (filter (\<lambda>k. iou_le (boxes ! i) (boxes ! k) t) (j # rest)) (indices @ [i]))"
  proof (rule "3.IH")
    show "sorted_wrt (\<lambda>i k. iou_le (boxes ! i) (boxes ! k) t) (indices @ [i])"
      using "3.prems" by (simp add: sorted_wrt_append)
    show "\<forall>a\<in>set (indices @ [i]).
       \<forall>k\<in>set (filter (\<lambda>k. iou_le (boxes ! i) (boxes ! k) t) (j # rest)).
          iou_le (boxes ! a) (boxes ! k) t"
      using "3.prems" by auto
  qed
  then show ?case
    by simp
qed (simp_all add: sorted_wrt_append)

lemma nms_loop_all_kept:
  assumes "distinct ord"
      and "\<forall>i \<in> set ord. \<forall>k \<in> set ord. i \<noteq> k \<longrightarrow> iou_le (boxes ! i) (boxes ! k) t"
  shows "nms_loop boxes t ord indices = indices @ ord"
  using assms
proof (induction boxes t ord indices rule: nms_loop.induct)
  case (3 boxes t i j rest indices)
  have f: "filter (\<lambda>k. iou_le (boxes ! i) (boxes ! k) t) (j # rest) = j # rest"
    using "3.prems" by (intro filter_True) auto
  have "nms_loop boxes t (j # rest) (indices @ [i]) = (indices @ [i]) @ (j # rest)"
    using "3.IH" "3.prems" unfolding f by auto
  then show ?case
    using f by (simp del: filter.simps)
qed simp_all

lemma nms_loop_head_only:
  assumes "\<forall>k \<in> set rest. \<not> iou_le (boxes ! i) (boxes ! k) t"
  shows "nms_loop boxes t (i # rest) [] = [i]"
proof (cases rest)
  case Nil
  then show ?thesis by simp
next
  case (Cons j r)
  have "filter (\<lambda>k. iou_le (boxes ! i) (boxes ! k) t) (j # r) = []"
    using assms Cons by (intro filter_False) auto
  then show ?thesis
    using Cons by (simp del: filter.simps)
qed

lemma merge_detections_eq:
  "merge_detections ds t = map (\<lambda>i. ds ! i) (kept_indices ds t)"
proof (cases "ds = []")
  case True
  then show ?thesis
    by (simp add: merge_detections_def kept_indices_def argsort_def)
next
  case False
  then show ?thesis
    by (simp add: merge_detections_def kept_indices_def Let_def)
qed

lemma nms_merge_eq: "nms_merge ds t = merge_detections ds t"
  by (simp add: nms_merge_def merge_detections_def)

lemma kept_mset: "mset (kept_indices ds t) \<subseteq># mset [0..<length ds]"
  using nms_loop_mset [of "map bbox ds" t "rev (argsort (map confidence ds))" "[]"]
  by (simp add: kept_indices_def argsort_mset)

lemma kept_lt: "i \<in> set (kept_indices ds t) \<Longrightarrow> i < length ds"
  using kept_mset [of ds t] by (metis atLeastLessThan_iff mset_subset_eqD set_mset_mset set_upt)

lemma kept_desc:
  "sorted_wrt (\<lambda>i k. confidence (ds ! k) \<le> confidence (ds ! i)) (kept_indices ds t)"
proof -
  have "sorted_wrt (\<lambda>i k. map confidence ds ! k \<le> map confidence ds ! i) (kept_indices ds t)"
    unfolding kept_indices_def by (rule nms_loop_sorted_wrt) (simp add: order_desc)
  then show ?thesis
    by (rule sorted_wrt_mono_rel [rotated]) (simp add: kept_lt)
qed

lemma kept_pairwise:
  "sorted_wrt (\<lambda>i k. iou_le (bbox (ds ! i)) (bbox (ds ! k)) t) (kept_indices ds t)"
proof -
  have "sorted_wrt (\<lambda>i k. iou_le (map bbox ds ! i) (map bbox ds ! k) t) (kept_indices ds t)"
    unfolding kept_indices_def by (rule nms_loop_invariant) simp_all
  then show ?thesis
    by (rule sorted_wrt_mono_rel [rotated]) (simp add: kept_lt)
qed

lemma merge_non_increasing: "non_increasing (merge_detections ds t)"
  by (simp add: non_increasing_def merge_detections_eq sorted_wrt_map kept_desc)

lemma merge_mset: "mset (merge_detections ds t) \<subseteq># mset ds"
proof -
  have "image_mset (\<lambda>i. ds ! i) (mset (kept_indices ds t)) \<subseteq># image_mset (\<lambda>i. ds ! i) (mset [0..<length ds])"
    by (rule image_mset_subseteq_mono) (rule kept_mset)
  moreover have "image_mset (\<lambda>i. ds ! i) (mset [0..<length ds]) = mset ds"
    by (simp only: mset_map [symmetric] map_nth)
  ultimately show ?thesis
    by (simp only: merge_detections_eq mset_map)
qed

lemma merge_no_overlap: "no_overlap t (merge_detections ds t)"
proof -
  have "sorted_wrt (\<lambda>a b. iou_le (bbox a) (bbox b) t) (merge_detections ds t)"
    by (simp add: merge_detections_eq sorted_wrt_map kept_pairwise)
  then have lt: "iou_le (bbox (merge_detections ds t ! p)) (bbox (merge_detections ds t ! q)) t"
    if "p < q" "q < length (merge_detections ds t)" for p q
    using that by (simp add: sorted_wrt_iff_nth_less)
  show ?thesis
    unfolding no_overlap_def
  proof (intro allI impI)
    fix p q
    assume "p < length (merge_detections ds t)" "q < length (merge_detections ds t)" "p \<noteq> q"
    then consider "p < q" | "q < p" by linarith
    then show "iou_le (bbox (merge_detections ds t ! p)) (bbox (merge_detections ds t ! q)) t"
    proof cases
      case 1
      then show ?thesis using lt \<open>q < length (merge_detections ds t)\<close> by blast
    next
      case 2
      then show ?thesis
        using lt [of q p] \<open>p < length (merge_detections ds t)\<close> by (simp add: iou_le_commute)
    qed
  qed
qed

text \<open>
  C10: for every input list, every detection returned by \<^verbatim>\<open>nms_merge\<close> is one of the input
  detections, unchanged and no more often than it occurs in the input; the output is ordered
  by non-increasing confidence, so its first element has maximal confidence among the kept
  detections; and the list that pi-detector.py's \<^verbatim>\<open>detect\<close> holds after its final merge,
  which it does not sort again, is ordered the same way.
\<close>

theorem nms_merge_sublist_ordered:
  "mset (nms_merge ds t) \<subseteq># mset ds \<and> set (nms_merge ds t) \<subseteq> set ds
   \<and> non_increasing (nms_merge ds t)
   \<and> (\<forall>d \<in> set (nms_merge ds t). confidence d \<le> confidence (hd (nms_merge ds t)))
   \<and> non_increasing (detect_merge slicing sliced full)"
proof -
  have m: "mset (nms_merge ds t) \<subseteq># mset ds"
    by (simp only: nms_merge_eq merge_mset)
  then have s: "set (nms_merge ds t) \<subseteq> set ds"
    by (metis set_mset_mono set_mset_mset)
  have n: "non_increasing (nms_merge ds t)"
    by (simp only: nms_merge_eq merge_non_increasing)
  have h: "\<forall>d \<in> set (nms_merge ds t). confidence d \<le> confidence (hd (nms_merge ds t))"
    using n unfolding non_increasing_def by (cases "nms_merge ds t") auto
  have p: "non_increasing (detect_merge slicing sliced full)"
    by (simp only: detect_merge_def Let_def nms_merge_eq merge_non_increasing)
  show ?thesis
    using m s n h p by blast
qed

theorem nms_merge_sublist_ordered_witness:
  "set (nms_merge
     [\<lparr>bbox = \<lparr>bx1 = 0, by1 = 0, bx2 = 10, by2 = 10\<rparr>, confidence = 0.6, class_label = None\<rparr>,
      \<lparr>bbox = \<lparr>bx1 = 1, by1 = 0, bx2 = 11, by2 = 10\<rparr>, confidence = 0.9, class_label = None\<rparr>,
      \<lparr>bbox = \<lparr>bx1 = 100, by1 = 100, bx2 = 110, by2 = 110\<rparr>, confidence = 0.7, class_label = None\<rparr>]
     0.4)
   \<subseteq> {\<lparr>bbox = \<lparr>bx1 = 0, by1 = 0, bx2 = 10, by2 = 10\<rparr>, confidence = 0.6, class_label = None\<rparr>,
      \<lparr>bbox = \<lparr>bx1 = 1, by1 = 0, bx2 = 11, by2 = 10\<rparr>, confidence = 0.9, class_label = None\<rparr>,
      \<lparr>bbox = \<lparr>bx1 = 100, by1 = 100, bx2 = 110, by2 = 110\<rparr>, confidence = 0.7, class_label = None\<rparr>}
   \<and> non_increasing (nms_merge
     [\<lparr>bbox = \<lparr>bx1 = 0, by1 = 0, bx2 = 10, by2 = 10\<rparr>, confidence = 0.6, class_label = None\<rparr>,
      \<lparr>bbox = \<lparr>bx1 = 1, by1 = 0, bx2 = 11, by2 = 10\<rparr>, confidence = 0.9, class_label = None\<rparr>,
      \<lparr>bbox = \<lparr>bx1 = 100, by1 = 100, bx2 = 110, by2 = 110\<rparr>, confidence = 0.7, class_label = None\<rparr>]
     0.4)
   \<and> hd (nms_merge
     [\<lparr>bbox = \<lparr>bx1 = 0, by1 = 0, bx2 = 10, by2 = 10\<rparr>, confidence = 0.6, class_label = None\<rparr>,
      \<lparr>bbox = \<lparr>bx1 = 1, by1 = 0, bx2 = 11, by2 = 10\<rparr>, confidence = 0.9, class_label = None\<rparr>,
      \<lparr>bbox = \<lparr>bx1 = 100, by1 = 100, bx2 = 110, by2 = 110\<rparr>, confidence = 0.7, class_label = None\<rparr>]
     0.4) = \<lparr>bbox = \<lparr>bx1 = 1, by1 = 0, bx2 = 11, by2 = 10\<rparr>, confidence = 0.9, class_label = None\<rparr>"
proof -
  have e: "hd (nms_merge
     [\<lparr>bbox = \<lparr>bx1 = 0, by1 = 0, bx2 = 10, by2 = 10\<rparr>, confidence = 0.6, class_label = None\<rparr>,
      \<lparr>bbox = \<lparr>bx1 = 1, by1 = 0, bx2 = 11, by2 = 10\<rparr>, confidence = 0.9, class_label = None\<rparr>,
      \<lparr>bbox = \<lparr>bx1 = 100, by1 = 100, bx2 = 110, by2 = 110\<rparr>, confidence = 0.7, class_label = None\<rparr>]
     0.4) = \<lparr>bbox = \<lparr>bx1 = 1, by1 = 0, bx2 = 11, by2 = 10\<rparr>, confidence = 0.9, class_label = None\<rparr>"
    by (simp add: nms_merge_def Let_def argsort_def iou_le_def iou_def)
  show ?thesis
    using e nms_merge_sublist_ordered
      [of "[\<lparr>bbox = \<lparr>bx1 = 0, by1 = 0, bx2 = 10, by2 = 10\<rparr>, confidence = 0.6, class_label = None\<rparr>,
      \<lparr>bbox = \<lparr>bx1 = 1, by1 = 0, bx2 = 11, by2 = 10\<rparr>, confidence = 0.9, class_label = None\<rparr>,
      \<lparr>bbox = \<lparr>bx1 = 100, by1 = 100, bx2 = 110, by2 = 110\<rparr>, confidence = 0.7, class_label = None\<rparr>]"
        "0.4" True "[]" "[]"]
    by simp
qed

lemma overlaps_not_le: "overlaps t a b \<Longrightarrow> \<not> iou_le a b t"
  by (simp add: overlaps_def iou_le_def split: option.splits)

lemma overlaps_commute: "overlaps t a b = overlaps t b a"
  by (simp add: overlaps_def iou_commute)

lemma merge_pair:
  "merge_detections [a, b] t =
     (if confidence a \<le> confidence b
      then (if iou_le (bbox a) (bbox b) t then [b, a] else [b])
      else (if iou_le (bbox a) (bbox b) t then [a, b] else [a]))"
  by (simp add: merge_detections_def Let_def argsort_def iou_le_commute [of "bbox b" "bbox a"])

lemma merge_all_overlapping:
  assumes "ds \<noteq> []"
      and ov: "\<forall>p < length ds. \<forall>q < length ds. p \<noteq> q \<longrightarrow> overlaps t (bbox (ds ! p)) (bbox (ds ! q))"
  shows "\<exists>d \<in> set ds. merge_detections ds t = [d] \<and> confidence d = Max (confidence ` set ds)"
proof -
  define ss where "ss = map confidence ds"
  define ord where "ord = rev (argsort ss)"
  have len: "length ord = length ds"
    by (simp add: ord_def ss_def argsort_length)
  have st: "set ord = {0..<length ds}"
    by (simp add: ord_def ss_def argsort_set)
  have di: "distinct ord"
    by (simp add: ord_def argsort_distinct)
  from len assms(1) obtain i0 rest where ord: "ord = i0 # rest"
    by (cases ord) auto
  have i0: "i0 < length ds" and rest: "\<And>k. k \<in> set rest \<Longrightarrow> k < length ds \<and> k \<noteq> i0"
    using st di unfolding ord by auto
  have "\<forall>k \<in> set rest. \<not> iou_le (map bbox ds ! i0) (map bbox ds ! k) t"
    using ov i0 rest by (auto intro!: overlaps_not_le)
  then have "nms_loop (map bbox ds) t (i0 # rest) [] = [i0]"
    by (rule nms_loop_head_only)
  then have kept: "kept_indices ds t = [i0]"
    by (simp add: kept_indices_def ord_def [symmetric, unfolded ss_def] ord)
  have desc: "sorted_wrt (\<lambda>i k. ss ! k \<le> ss ! i) (i0 # rest)"
    using order_desc [of ss] by (simp add: ord_def [symmetric] ord)
  have top: "confidence d \<le> confidence (ds ! i0)" if "d \<in> set ds" for d
  proof -
    from that obtain k where k: "k < length ds" "d = ds ! k"
      by (auto simp add: in_set_conv_nth)
    then have "k \<in> set (i0 # rest)"
      using st unfolding ord by simp
    then have "ss ! k \<le> ss ! i0"
      using desc by auto
    then show ?thesis
      using k i0 by (simp add: ss_def)
  qed
  have "Max (confidence ` set ds) = confidence (ds ! i0)"
    using top i0 by (intro Max_eqI) auto
  then show ?thesis
    using kept i0 by (auto simp add: merge_detections_eq)
qed


lemma merge_keeps_all:
  assumes "no_overlap t out"
  shows "kept_indices out t = rev (argsort (map confidence out))"
proof -
  have "nms_loop (map bbox out) t (rev (argsort (map confidence out))) []
      = [] @ rev (argsort (map confidence out))"
  proof (rule nms_loop_all_kept)
    show "distinct (rev (argsort (map confidence out)))"
      by (simp add: argsort_distinct)
    show "\<forall>i\<in>set (rev (argsort (map confidence out))).
       \<forall>k\<in>set (rev (argsort (map confidence out))).
          i \<noteq> k \<longrightarrow> iou_le (map bbox out ! i) (map bbox out ! k) t"
      using assms by (simp add: argsort_set no_overlap_def)
  qed
  then show ?thesis
    by (simp add: kept_indices_def)
qed

lemma merge_perm:
  assumes "no_overlap t out"
  shows "mset (merge_detections out t) = mset out"
proof -
  have "mset (merge_detections out t) = image_mset (\<lambda>i. out ! i) (mset (argsort (map confidence out)))"
    by (simp add: merge_detections_eq merge_keeps_all [OF assms])
  also have "\<dots> = image_mset (\<lambda>i. out ! i) (mset [0..<length out])"
    by (simp only: argsort_mset length_map)
  also have "\<dots> = mset out"
    by (simp only: mset_map [symmetric] map_nth)
  finally show ?thesis .
qed

lemma argsort_of_descending:
  assumes "sorted_wrt (\<lambda>x y. y \<le> x) ss" and "distinct ss"
  shows "rev (argsort ss) = [0..<length ss]"
proof -
  have "mset (map (\<lambda>i. ss ! i) (argsort ss)) = image_mset (\<lambda>i. ss ! i) (mset [0..<length ss])"
    by (simp only: mset_map argsort_mset)
  also have "\<dots> = mset ss"
    by (simp only: mset_map [symmetric] map_nth)
  finally have "sort ss = map (\<lambda>i. ss ! i) (argsort ss)"
    using argsort_sorted [of ss] by (intro properties_for_sort)
  moreover have "sort ss = rev ss"
    using assms(1) by (intro properties_for_sort) (simp_all add: sorted_wrt_rev)
  ultimately have "map (\<lambda>i. ss ! i) (argsort ss) = rev ss"
    by simp
  also have "\<dots> = map (\<lambda>i. ss ! i) (rev [0..<length ss])"
    by (simp add: rev_map [symmetric] map_nth)
  finally have eq: "map (\<lambda>i. ss ! i) (argsort ss) = map (\<lambda>i. ss ! i) (rev [0..<length ss])" .
  have "inj_on (\<lambda>i. ss ! i) (set (argsort ss) \<union> set (rev [0..<length ss]))"
    using assms(2) by (auto simp add: argsort_set inj_on_def nth_eq_iff_index_eq)
  then have "argsort ss = rev [0..<length ss]"
    using eq by (simp only: inj_on_map_eq_map)
  then show ?thesis
    by simp
qed

lemma merge_fixed:
  assumes "no_overlap t out" and "non_increasing out" and "distinct (map confidence out)"
  shows "merge_detections out t = out"
proof -
  have "sorted_wrt (\<lambda>x y. y \<le> x) (map confidence out)"
    using assms(2) by (simp add: non_increasing_def sorted_wrt_map)
  then have "rev (argsort (map confidence out)) = [0..<length (map confidence out)]"
    using assms(3) by (rule argsort_of_descending)
  then have "kept_indices out t = [0..<length out]"
    by (simp add: merge_keeps_all [OF assms(1)])
  then show ?thesis
    by (simp add: merge_detections_eq map_nth)
qed

text \<open>
  C7: of two detections that overlap above the threshold and differ in confidence only the
  more confident one is kept; two detections whose overlap does not exceed the threshold are
  both kept; and a non-empty list of detections that pairwise overlap above the threshold
  is merged into exactly one detection, whose confidence is the maximum of the input
  confidences.
\<close>

theorem merge_detections_overlap_rule:
  "(overlaps t (bbox a) (bbox b) \<and> confidence a \<noteq> confidence b \<longrightarrow>
      merge_detections [a, b] t = [if confidence b < confidence a then a else b])
   \<and> (iou_le (bbox u) (bbox v) t \<longrightarrow>
      mset (merge_detections [u, v] t) = {#u, v#} \<and> length (merge_detections [u, v] t) = 2)
   \<and> (ds \<noteq> [] \<and>
       (\<forall>p < length ds. \<forall>q < length ds. p \<noteq> q \<longrightarrow> overlaps t (bbox (ds ! p)) (bbox (ds ! q))) \<longrightarrow>
      (\<exists>d \<in> set ds. merge_detections ds t = [d] \<and> confidence d = Max (confidence ` set ds)))"
proof (intro conjI impI)
  assume "overlaps t (bbox a) (bbox b) \<and> confidence a \<noteq> confidence b"
  then show "merge_detections [a, b] t = [if confidence b < confidence a then a else b]"
    by (auto simp add: merge_pair dest: overlaps_not_le)
next
  assume "iou_le (bbox u) (bbox v) t"
  then show "mset (merge_detections [u, v] t) = {#u, v#}"
    by (simp add: merge_pair)
next
  assume "iou_le (bbox u) (bbox v) t"
  then show "length (merge_detections [u, v] t) = 2"
    by (simp add: merge_pair)
next
  assume "ds \<noteq> [] \<and>
       (\<forall>p < length ds. \<forall>q < length ds. p \<noteq> q \<longrightarrow> overlaps t (bbox (ds ! p)) (bbox (ds ! q)))"
  then show "\<exists>d \<in> set ds. merge_detections ds t = [d] \<and> confidence d = Max (confidence ` set ds)"
    by (intro merge_all_overlapping) auto
qed

theorem merge_detections_overlap_rule_witness:
  "merge_detections
     [\<lparr>bbox = \<lparr>bx1 = 0, by1 = 0, bx2 = 10, by2 = 10\<rparr>, confidence = 0.6, class_label = Some ''person''\<rparr>,
      \<lparr>bbox = \<lparr>bx1 = 1, by1 = 0, bx2 = 11, by2 = 10\<rparr>, confidence = 0.9, class_label = Some ''person''\<rparr>]
     0.5
   = [\<lparr>bbox = \<lparr>bx1 = 1, by1 = 0, bx2 = 11, by2 = 10\<rparr>, confidence = 0.9, class_label = Some ''person''\<rparr>]
   \<and> length (merge_detections
     [\<lparr>bbox = \<lparr>bx1 = 0, by1 = 0, bx2 = 10, by2 = 10\<rparr>, confidence = 0.6, class_label = Some ''person''\<rparr>,
      \<lparr>bbox = \<lparr>bx1 = 100, by1 = 100, bx2 = 110, by2 = 110\<rparr>, confidence = 0.9, class_label = Some ''person''\<rparr>]
     0.5) = 2
   \<and> (\<exists>d. merge_detections
     [\<lparr>bbox = \<lparr>bx1 = 0, by1 = 0, bx2 = 50, by2 = 50\<rparr>, confidence = 0.5, class_label = Some ''person''\<rparr>,
      \<lparr>bbox = \<lparr>bx1 = 2, by1 = 0, bx2 = 52, by2 = 50\<rparr>, confidence = 0.8, class_label = Some ''person''\<rparr>,
      \<lparr>bbox = \<lparr>bx1 = 0, by1 = 2, bx2 = 50, by2 = 52\<rparr>, confidence = 0.6, class_label = Some ''person''\<rparr>,
      \<lparr>bbox = \<lparr>bx1 = 2, by1 = 2, bx2 = 52, by2 = 52\<rparr>, confidence = 0.7, class_label = Some ''person''\<rparr>]
     0.4 = [d] \<and> confidence d = 0.8)"
proof -
  have h1: "overlaps 0.5 (bbox \<lparr>bbox = \<lparr>bx1 = 0, by1 = 0, bx2 = 10, by2 = 10\<rparr>, confidence = 0.6, class_label = Some ''person''\<rparr>)
      (bbox \<lparr>bbox = \<lparr>bx1 = 1, by1 = 0, bx2 = 11, by2 = 10\<rparr>, confidence = 0.9, class_label = Some ''person''\<rparr>)"
    by (simp add: overlaps_def iou_def)
  have h2: "iou_le (bbox \<lparr>bbox = \<lparr>bx1 = 0, by1 = 0, bx2 = 10, by2 = 10\<rparr>, confidence = 0.6, class_label = Some ''person''\<rparr>)
      (bbox \<lparr>bbox = \<lparr>bx1 = 100, by1 = 100, bx2 = 110, by2 = 110\<rparr>, confidence = 0.9, class_label = Some ''person''\<rparr>) 0.5"
    by (simp add: iou_le_def iou_def)
  let ?ds = "[\<lparr>bbox = \<lparr>bx1 = 0, by1 = 0, bx2 = 50, by2 = 50\<rparr>, confidence = 0.5, class_label = Some ''person''\<rparr>,
      \<lparr>bbox = \<lparr>bx1 = 2, by1 = 0, bx2 = 52, by2 = 50\<rparr>, confidence = 0.8, class_label = Some ''person''\<rparr>,
      \<lparr>bbox = \<lparr>bx1 = 0, by1 = 2, bx2 = 50, by2 = 52\<rparr>, confidence = 0.6, class_label = Some ''person''\<rparr>,
      \<lparr>bbox = \<lparr>bx1 = 2, by1 = 2, bx2 = 52, by2 = 52\<rparr>, confidence = 0.7, class_label = Some ''person''\<rparr>]"
  have h3: "\<forall>p < length ?ds. \<forall>q < length ?ds. p \<noteq> q \<longrightarrow> overlaps 0.4 (bbox (?ds ! p)) (bbox (?ds ! q))"
    by (simp add: overlaps_def iou_def All_less_Suc)
  show ?thesis
    using h1 h2 h3 merge_detections_overlap_rule
      [of "0.5" "\<lparr>bbox = \<lparr>bx1 = 0, by1 = 0, bx2 = 10, by2 = 10\<rparr>, confidence = 0.6, class_label = Some ''person''\<rparr>"
          "\<lparr>bbox = \<lparr>bx1 = 1, by1 = 0, bx2 = 11, by2 = 10\<rparr>, confidence = 0.9, class_label = Some ''person''\<rparr>"
          "\<lparr>bbox = \<lparr>bx1 = 0, by1 = 0, bx2 = 10, by2 = 10\<rparr>, confidence = 0.6, class_label = Some ''person''\<rparr>"
          "\<lparr>bbox = \<lparr>bx1 = 100, by1 = 100, bx2 = 110, by2 = 110\<rparr>, confidence = 0.9, class_label = Some ''person''\<rparr>"]
        merge_detections_overlap_rule [of "0.4" _ _ _ _ ?ds]
    by auto
qed




text \<open>
  C8 (as the specification states it, refuted in its second half): merging an already
  merged output returns it unchanged. Two disjoint detections of equal confidence are
  both kept, in reverse input order; merging that output reverses it again.
\<close>

theorem merge_twice_counterexample:
  "merge_detections (merge_detections
     [\<lparr>bbox = \<lparr>bx1 = 0, by1 = 0, bx2 = 10, by2 = 10\<rparr>, confidence = 0.9, class_label = Some ''person''\<rparr>,
      \<lparr>bbox = \<lparr>bx1 = 100, by1 = 100, bx2 = 110, by2 = 110\<rparr>, confidence = 0.9, class_label = Some ''person''\<rparr>]
     0.5) 0.5
   \<noteq> merge_detections
     [\<lparr>bbox = \<lparr>bx1 = 0, by1 = 0, bx2 = 10, by2 = 10\<rparr>, confidence = 0.9, class_label = Some ''person''\<rparr>,
      \<lparr>bbox = \<lparr>bx1 = 100, by1 = 100, bx2 = 110, by2 = 110\<rparr>, confidence = 0.9, class_label = Some ''person''\<rparr>]
     0.5"
  by (simp add: merge_detections_def Let_def argsort_def iou_le_def iou_def)

text \<open>
  C8 (amended): for every input list (the empty one included) no two detections of the
  output overlap above the threshold; merging the output again with the same threshold
  returns the same detections (as a multiset), and returns the very same sequence whenever
  the confidences of the output are pairwise distinct.
\<close>

theorem merge_invariant_idempotent:
  "no_overlap t (merge_detections ds t)
   \<and> mset (merge_detections (merge_detections ds t) t) = mset (merge_detections ds t)
   \<and> (distinct (map confidence (merge_detections ds t)) \<longrightarrow>
        merge_detections (merge_detections ds t) t = merge_detections ds t)"
  using merge_no_overlap [of t ds] merge_non_increasing [of ds t]
  by (auto intro: merge_perm merge_fixed)

theorem merge_invariant_idempotent_witness:
  "merge_detections (merge_detections
     [\<lparr>bbox = \<lparr>bx1 = 0, by1 = 0, bx2 = 10, by2 = 10\<rparr>, confidence = 0.6, class_label = Some ''person''\<rparr>,
      \<lparr>bbox = \<lparr>bx1 = 1, by1 = 0, bx2 = 11, by2 = 10\<rparr>, confidence = 0.9, class_label = Some ''person''\<rparr>,
      \<lparr>bbox = \<lparr>bx1 = 100, by1 = 100, bx2 = 110, by2 = 110\<rparr>, confidence = 0.7, class_label = Some ''person''\<rparr>]
     0.4) 0.4
   = [\<lparr>bbox = \<lparr>bx1 = 1, by1 = 0, bx2 = 11, by2 = 10\<rparr>, confidence = 0.9, class_label = Some ''person''\<rparr>,
      \<lparr>bbox = \<lparr>bx1 = 100, by1 = 100, bx2 = 110, by2 = 110\<rparr>, confidence = 0.7, class_label = Some ''person''\<rparr>]
   \<and> no_overlap 0.4
     [\<lparr>bbox = \<lparr>bx1 = 1, by1 = 0, bx2 = 11, by2 = 10\<rparr>, confidence = 0.9, class_label = Some ''person''\<rparr>,
      \<lparr>bbox = \<lparr>bx1 = 100, by1 = 100, bx2 = 110, by2 = 110\<rparr>, confidence = 0.7, class_label = Some ''person''\<rparr>]"
proof -
  have e: "merge_detections
     [\<lparr>bbox = \<lparr>bx1 = 0, by1 = 0, bx2 = 10, by2 = 10\<rparr>, confidence = 0.6, class_label = Some ''person''\<rparr>,
      \<lparr>bbox = \<lparr>bx1 = 1, by1 = 0, bx2 = 11, by2 = 10\<rparr>, confidence = 0.9, class_label = Some ''person''\<rparr>,
      \<lparr>bbox = \<lparr>bx1 = 100, by1 = 100, bx2 = 110, by2 = 110\<rparr>, confidence = 0.7, class_label = Some ''person''\<rparr>]
     0.4
   = [\<lparr>bbox = \<lparr>bx1 = 1, by1 = 0, bx2 = 11, by2 = 10\<rparr>, confidence = 0.9, class_label = Some ''person''\<rparr>,
      \<lparr>bbox = \<lparr>bx1 = 100, by1 = 100, bx2 = 110, by2 = 110\<rparr>, confidence = 0.7, class_label = Some ''person''\<rparr>]"
    by (simp add: merge_detections_def Let_def argsort_def iou_le_def iou_def)
  show ?thesis
    using merge_invariant_idempotent
      [of "0.4" "[\<lparr>bbox = \<lparr>bx1 = 0, by1 = 0, bx2 = 10, by2 = 10\<rparr>, confidence = 0.6, class_label = Some ''person''\<rparr>,
      \<lparr>bbox = \<lparr>bx1 = 1, by1 = 0, bx2 = 11, by2 = 10\<rparr>, confidence = 0.9, class_label = Some ''person''\<rparr>,
      \<lparr>bbox = \<lparr>bx1 = 100, by1 = 100, bx2 = 110, by2 = 110\<rparr>, confidence = 0.7, class_label = Some ''person''\<rparr>]"]
    unfolding e by simp
qed

section \<open>Properties of the pixel-density fallback\<close>







section \<open>Properties of the detector command line\<close>

lemma detect_persons_not_found:
  "\<not> path_exists image_path \<Longrightarrow>
   detect_persons path_exists yolo save_image image_path model_name confidence_threshold
     save_annotated = Failed (''Image not found: '' @ image_path)"
  by (simp add: detect_persons_def)

lemma main_not_found:
  "\<not> path_exists (arg_image_path args) \<Longrightarrow>
   main path_exists yolo save_image args =
     (if arg_json args then (Json_dump (Failed (''Image not found: '' @ arg_image_path args)), 0)
      else (Error_line (''Image not found: '' @ arg_image_path args), 1))"
  by (simp add: main_def detect_persons_not_found)

lemma detect_persons_example:
  "detect_persons (\<lambda>p. True)
     (\<lambda>m p. Inr [\<lparr>cls = 0, conf = 0.9123, xyxy = \<lparr>bx1 = 0, by1 = 0, bx2 = 10, by2 = 20\<rparr>\<rparr>,
                  \<lparr>cls = 0, conf = 0.4, xyxy = \<lparr>bx1 = 5, by1 = 5, bx2 = 10, by2 = 20\<rparr>\<rparr>,
                  \<lparr>cls = 16, conf = 0.8, xyxy = \<lparr>bx1 = 50, by1 = 5, bx2 = 60, by2 = 20\<rparr>\<rparr>])
     (\<lambda>p. Inr p) ''beach.jpg'' ''yolov8m.pt'' 0.5 False
   = Succeeded \<lparr>total_persons = 1, min_confidence = 0.912, max_confidence = 0.912,
        avg_confidence = 0.912, high = 1, medium = 0, low = 0,
        persons = [\<lparr>bbox = \<lparr>bx1 = 0, by1 = 0, bx2 = 10, by2 = 20\<rparr>, confidence = 0.912,
                    class_label = Some ''person''\<rparr>],
        annotated_image_path = None\<rparr>"
  by (simp add: detect_persons_def Let_def py_int_def py_round_nd_def py_round_def)

text \<open>
  C4 (the code departs from it): on a path that does not exist the result is the structured
  failure in both output formats, but only the human-readable branch of \<^verbatim>\<open>main\<close> calls
  \<^verbatim>\<open>sys.exit(1)\<close>; with \<^verbatim>\<open>--json\<close> the failure is printed and the process exits with code 0.
\<close>

theorem main_json_not_found_exit_zero:
  "main (\<lambda>p. False) (\<lambda>m p. Inr []) (\<lambda>p. Inr p)
     \<lparr>arg_image_path = ''missing.jpg'', arg_model = ''yolov8m.pt'', arg_confidence = 0.5,
      arg_save_annotated = False, arg_json = True\<rparr>
   = (Json_dump (Failed ''Image not found: missing.jpg''), 0)
   \<and> main (\<lambda>p. False) (\<lambda>m p. Inr []) (\<lambda>p. Inr p)
     \<lparr>arg_image_path = ''missing.jpg'', arg_model = ''yolov8m.pt'', arg_confidence = 0.5,
      arg_save_annotated = False, arg_json = False\<rparr>
   = (Error_line ''Image not found: missing.jpg'', 1)"
  by (simp add: main_def detect_persons_def)

end
